theory Spec2Isabelle
  imports Main "HOL-Library.AList"
begin

section \<open>Strings and the platform's string primitives\<close>

text \<open>
  The route handler works on the text that \<open>atob\<close> returns: a string whose code units
  all lie in 0..255. Such a string is a \<^typ>\<open>string\<close> here, one \<^typ>\<open>char\<close> per code unit.
  The character classes below are the ECMAScript ones, cut down to that range. The
  segment names of a caller's table are strings of the same kind: \<open>btoa\<close> accepts no
  other, and its refusal is a branch of the handler below.
\<close>

definition isWhiteSpace :: "char \<Rightarrow> bool" where
  \<comment> \<open>what \<open>\s\<close> matches and \<open>trim\<close> strips: TAB, LF, VT, FF, CR, SP, NBSP\<close>
  "isWhiteSpace c \<longleftrightarrow>
     c = CHR 0x09 \<or> c = CHR 0x0A \<or> c = CHR 0x0B \<or> c = CHR 0x0C \<or> c = CHR 0x0D \<or>
     c = CHR 0x20 \<or> c = CHR 0xA0"

definition isLineTerminator :: "char \<Rightarrow> bool" where
  \<comment> \<open>the characters the regular expression atom \<open>.\<close> refuses: LF and CR\<close>
  "isLineTerminator c \<longleftrightarrow> c = CHR 0x0A \<or> c = CHR 0x0D"

definition isDigit :: "char \<Rightarrow> bool" where
  \<comment> \<open>\<open>\d\<close>, and the digits \<open>parseInt\<close> reads in radix 10\<close>
  "isDigit c \<longleftrightarrow> (let n = (of_char c :: nat) in 48 \<le> n \<and> n \<le> 57)"

definition isQuote :: "char \<Rightarrow> bool" where
  \<comment> \<open>the class \<open>['"]\<close>\<close>
  "isQuote c \<longleftrightarrow> c = CHR 0x27 \<or> c = CHR 0x22"

definition toLowerCaseChar :: "char \<Rightarrow> char" where
  \<comment> \<open>\<open>toLowerCase\<close> on one code unit below 256: A-Z and the accented capitals
      U+00C0..U+00DE (but not the multiplication sign U+00D7) move up by 32\<close>
  "toLowerCaseChar c =
     (let n = (of_char c :: nat)
      in if (65 \<le> n \<and> n \<le> 90) \<or> (192 \<le> n \<and> n \<le> 222 \<and> n \<noteq> 215)
         then char_of (n + 32) else c)"

definition toLowerCase :: "string \<Rightarrow> string" where
  "toLowerCase s = map toLowerCaseChar s"

definition trim :: "string \<Rightarrow> string" where
  \<comment> \<open>\<open>String.prototype.trim\<close>\<close>
  "trim s = rev (dropWhile isWhiteSpace (rev (dropWhile isWhiteSpace s)))"

fun join :: "string \<Rightarrow> string list \<Rightarrow> string" where
  \<comment> \<open>\<open>Array.prototype.join\<close> on an array of strings\<close>
  "join sep [] = []"
| "join sep [x] = x"
| "join sep (x # y # ys) = x @ sep @ join sep (y # ys)"

fun splitChar :: "char \<Rightarrow> string \<Rightarrow> string list" where
  \<comment> \<open>\<open>s.split(c)\<close> for a one-character separator: never an empty array\<close>
  "splitChar sep [] = [[]]"
| "splitChar sep (c # cs) =
     (if c = sep then [] # splitChar sep cs
      else (case splitChar sep cs of
              [] \<Rightarrow> [[c]]
            | t # ts \<Rightarrow> (c # t) # ts))"

function splitWhiteSpace :: "string \<Rightarrow> string list" where
  \<comment> \<open>\<open>s.split(/\s+/)\<close>: the pieces between maximal runs of white space; a run at the
      start or at the end of \<open>s\<close> leaves an empty piece there\<close>
  "splitWhiteSpace s =
     takeWhile (\<lambda>c. \<not> isWhiteSpace c) s #
       (case dropWhile (\<lambda>c. \<not> isWhiteSpace c) s of
          [] \<Rightarrow> []
        | w # r \<Rightarrow> splitWhiteSpace (dropWhile isWhiteSpace r))"
  by pat_completeness auto
termination
proof (relation "measure length")
  show "wf (measure length)" by simp
next
  fix s :: string and w r
  assume d: "dropWhile (\<lambda>c. \<not> isWhiteSpace c) s = w # r"
  have "length (dropWhile isWhiteSpace r) \<le> length r"
    by (rule length_dropWhile_le)
  moreover have "length (w # r) \<le> length s"
    using length_dropWhile_le [of "\<lambda>c. \<not> isWhiteSpace c" s] d by simp
  ultimately show "(dropWhile isWhiteSpace r, s) \<in> measure length"
    by simp
qed

declare splitWhiteSpace.simps [simp del]

section \<open>Numbers\<close>

text \<open>
  A VLAN id is an ECMAScript number, and the only numbers the code makes are results of
  \<open>parseInt\<close>: \<open>NaN\<close> or an integer. \<open>None\<close> stands for \<open>NaN\<close> and an \<^typ>\<open>int\<close> for
  the integer. This is exact for every run of digits whose value is at most \<open>2^53\<close>
  (a VLAN id has at most four digits); a longer run is rounded to a double by the
  platform, which this model does not follow.
\<close>

definition digitValue :: "char \<Rightarrow> nat" where
  "digitValue c = of_char c - 48"

definition digitsValue :: "string \<Rightarrow> nat" where
  \<comment> \<open>the integer a run of decimal digits denotes\<close>
  "digitsValue ds = foldl (\<lambda>acc c. 10 * acc + digitValue c) 0 ds"

definition parseInt10 :: "string \<Rightarrow> int option" where
  \<comment> \<open>\<open>parseInt(s, 10)\<close>: leading white space, an optional sign, then the longest run of
      digits; \<open>NaN\<close> when that run is empty. What follows the digits is ignored.\<close>
  "parseInt10 s =
     (let t = dropWhile isWhiteSpace s;
          neg = (case t of [] \<Rightarrow> False | c # _ \<Rightarrow> c = CHR ''-'');
          u = (case t of [] \<Rightarrow> [] | c # r \<Rightarrow> if c = CHR ''+'' \<or> c = CHR ''-'' then r else t);
          z = takeWhile isDigit u
      in if z = [] then None
         else Some (if neg then - int (digitsValue z) else int (digitsValue z)))"

definition digitChar :: "nat \<Rightarrow> char" where
  \<comment> \<open>the character of a decimal digit\<close>
  "digitChar d = char_of (of_char (CHR ''0'') + d)"

fun natToString :: "nat \<Rightarrow> string" where
  \<comment> \<open>decimal notation, most significant digit first, no leading zero\<close>
  "natToString n =
     (if n < 10 then [digitChar n]
      else natToString (n div 10) @ [digitChar (n mod 10)])"

declare natToString.simps [simp del]

definition numberToString :: "int \<Rightarrow> string" where
  \<comment> \<open>\<open>Number.prototype.toString\<close>, and the property key a number becomes, for an
      integer of magnitude at most \<open>2^53\<close>: its decimal digits, after a \<open>-\<close> when negative\<close>
  "numberToString i = (if i < 0 then CHR ''-'' # natToString (nat (- i)) else natToString (nat i))"

section \<open>formatMacAddress\<close>

definition removeSeparators :: "string \<Rightarrow> string" where
  \<comment> \<open>\<open>.replace(/[.:-]/g, '')\<close>\<close>
  "removeSeparators s = filter (\<lambda>c. c \<noteq> CHR ''.'' \<and> c \<noteq> CHR '':'' \<and> c \<noteq> CHR ''-'') s"

fun matchPairs :: "string \<Rightarrow> string list" where
  \<comment> \<open>\<open>s.match(/.{1,2}/g)\<close>, the empty list standing for \<open>null\<close>: scanning from the
      left, two characters at a time, one when the next is a line terminator or the end;
      a line terminator is in no match\<close>
  "matchPairs [] = []"
| "matchPairs [c] = (if isLineTerminator c then [] else [[c]])"
| "matchPairs (c # d # r) =
     (if isLineTerminator c then matchPairs (d # r)
      else if isLineTerminator d then [c] # matchPairs (d # r)
      else [c, d] # matchPairs r)"

definition formatMacAddress :: "string \<Rightarrow> string" where
  "formatMacAddress raw =
     (let mac = removeSeparators (toLowerCase raw)
      in if length mac = 12
         then (case matchPairs mac of
                 [] \<Rightarrow> mac
               | m # ms \<Rightarrow> (let joined = join '':'' (m # ms) in if joined = [] then mac else joined))
         else mac)"

section \<open>parseFileContent\<close>

record client =
  vlan :: int
  mac :: string
  port :: string

text \<open>
  An object used as a table from property keys to strings (\<open>Record<string, string>\<close>) is
  an association list read with \<^const>\<open>map_of\<close> and written with \<^const>\<open>AList.update\<close>;
  the order of its keys plays no part in what follows.
\<close>

type_synonym mappings = "(string \<times> string) list"

record parsed =
  clients :: "client list"
  uniqueVlans :: "int list"
  detectedMappings :: mappings

definition mappingMatch :: "string \<Rightarrow> (string \<times> string) option" where
  \<comment> \<open>\<open>trimmedLine.match(/^(\d+)\s*=\s*['"]?(.*?)['"]?$/)\<close>: the two groups, or \<open>None\<close>
      for \<open>null\<close>. The digits and both runs of white space are greedy and nothing after
      them can take back what they took; an opening quote is taken when there is one; the
      lazy group then stops at the first place where only an optional quote is left before
      the end of the string, and it cannot cross a line terminator.\<close>
  "mappingMatch l =
     (let g1 = takeWhile isDigit l
      in if g1 = [] then None
         else (case dropWhile isWhiteSpace (dropWhile isDigit l) of
                 [] \<Rightarrow> None
               | e # r \<Rightarrow>
                   if e \<noteq> CHR ''='' then None
                   else (let v = dropWhile isWhiteSpace r;
                             body = (case v of [] \<Rightarrow> [] | q # t \<Rightarrow> if isQuote q then t else v)
                         in if list_ex isLineTerminator body then None
                            else Some (g1, if body \<noteq> [] \<and> isQuote (last body)
                                           then butlast body else body))))"

definition processLine :: "string \<Rightarrow> parsed \<Rightarrow> parsed" where
  \<comment> \<open>the body of \<open>lines.forEach\<close>; the three collections it mutates are the state\<close>
  "processLine line st =
     (let trimmedLine = trim line
      in if trimmedLine = [] then st
         else (case mappingMatch trimmedLine of
                 Some (g1, segmentName) \<Rightarrow>
                   (let key = (case parseInt10 g1 of None \<Rightarrow> ''NaN'' | Some vlanId \<Rightarrow> numberToString vlanId)
                    in st\<lparr>detectedMappings := AList.update key segmentName (detectedMappings st)\<rparr>)
               | None \<Rightarrow>
                   (let parts = splitWhiteSpace trimmedLine
                    in if length parts < 4 then st
                       else (case parseInt10 (parts ! 0) of
                               None \<Rightarrow> st
                             | Some v \<Rightarrow>
                                 if parts ! 1 \<noteq> [] \<and> parts ! 3 \<noteq> []
                                 then st\<lparr>uniqueVlans :=
                                           (if v \<in> set (uniqueVlans st) then uniqueVlans st
                                            else uniqueVlans st @ [v]),
                                         clients :=
                                           clients st @ [\<lparr>vlan = v, mac = parts ! 1, port = parts ! 3\<rparr>]\<rparr>
                                 else st))))"

definition emptyParsed :: parsed where
  "emptyParsed = \<lparr>clients = [], uniqueVlans = [], detectedMappings = []\<rparr>"

definition parseFileContent :: "string \<Rightarrow> parsed" where
  "parseFileContent content =
     (let lines = splitChar (CHR 0x0A) (trim content);
          st = fold processLine lines emptyParsed
      in st\<lparr>uniqueVlans := sort (uniqueVlans st)\<rparr>)"

section \<open>generateCsv\<close>

definition headers :: "string list" where
  "headers =
     [''MAC Address (Required)'',
      ''Segment (Required for allow state)'',
      ''Lock to Port (Optional)'',
      ''Site (Optional)'',
      ''Building (Optional)'',
      ''Floor (Optional)'',
      ''Allow or Deny (Required)'',
      ''Description (Optional)'',
      ''Static IP (Optional)'',
      ''IP Address (Optional)'',
      ''Passive IP (Optional)'']"

definition segmentOf :: "mappings \<Rightarrow> client \<Rightarrow> string" where
  \<comment> \<open>\<open>vlanMappings[vlan] || ''\<close>: the number becomes its property key\<close>
  "segmentOf vlanMappings c =
     (case map_of vlanMappings (numberToString (vlan c)) of
        None \<Rightarrow> []
      | Some s \<Rightarrow> if s = [] then [] else s)"

definition csvRow :: "mappings \<Rightarrow> client \<Rightarrow> string list" where
  \<comment> \<open>the array the \<open>clients.map\<close> callback builds before joining it\<close>
  "csvRow vlanMappings c =
     [formatMacAddress (mac c),
      segmentOf vlanMappings c,
      [], [], [], [],
      ''Allow'',
      [],
      ''No'',
      [],
      ''No'']"

definition csvRows :: "client list \<Rightarrow> mappings \<Rightarrow> string list" where
  \<comment> \<open>the array \<open>rows\<close>\<close>
  "csvRows cs vlanMappings =
     join '','' headers # map (\<lambda>c. join '','' (csvRow vlanMappings c)) cs"

definition generateCsv :: "client list \<Rightarrow> mappings \<Rightarrow> string" where
  "generateCsv cs vlanMappings = join [CHR 0x0A] (csvRows cs vlanMappings)"

section \<open>The route handler\<close>

text \<open>
  \<open>Object.keys(vlanMappings)\<close> is the list of the table's keys, \<^term>\<open>map fst vm\<close>.
  The handler reads the two fields \<open>fileContent\<close> and \<open>vlanMappings\<close> of the request's JSON
  body and nothing else of it. \<open>atob\<close> and \<open>btoa\<close> belong to the platform and are parameters:
  \<open>None\<close> is the exception either throws. A field that is missing is \<open>None\<close>, and so is a
  body that could not be read.
\<close>

record body =
  fileContent :: "string option"
  vlanMappings :: "mappings option"

datatype response =
  Error string nat
  | Converted string mappings

definition POST ::
  "(string \<Rightarrow> string option) \<Rightarrow> (string \<Rightarrow> string option) \<Rightarrow> body option \<Rightarrow> response" where
  "POST atob btoa request =
     (case request of
        None \<Rightarrow> Error ''Failed to process file'' 500
      | Some b \<Rightarrow>
          (case fileContent b of
             None \<Rightarrow> Error ''No file content provided'' 400
           | Some fc \<Rightarrow>
               if fc = [] then Error ''No file content provided'' 400
               else (case atob fc of
                       None \<Rightarrow> Error ''Invalid file content encoding'' 400
                     | Some decodedContent \<Rightarrow>
                         (let p = parseFileContent decodedContent
                          in if clients p = []
                             then Error ''No valid MAC address entries found in the file'' 400
                             else (case vlanMappings b of
                                     None \<Rightarrow> Error ''Failed to parse file content'' 400
                                   | Some vm \<Rightarrow>
                                       (let finalMappings =
                                              (if 0 < length (map fst vm) then vm else detectedMappings p)
                                        in case btoa (generateCsv (clients p) finalMappings) of
                                             None \<Rightarrow> Error ''Failed to parse file content'' 400
                                           | Some csvContent \<Rightarrow>
                                               Converted csvContent (detectedMappings p)))))))"

section \<open>Properties of formatMacAddress\<close>

lemma length_12_cases:
  assumes "length (c :: 'a list) = 12"
  obtains c0 c1 c2 c3 c4 c5 c6 c7 c8 c9 c10 c11
  where "c = [c0, c1, c2, c3, c4, c5, c6, c7, c8, c9, c10, c11]"
proof -
  from assms obtain c0 r0 where "c = c0 # r0" "length r0 = 11" by (cases c) auto
  moreover then obtain c1 r1 where "r0 = c1 # r1" "length r1 = 10" by (cases r0) auto
  moreover then obtain c2 r2 where "r1 = c2 # r2" "length r2 = 9" by (cases r1) auto
  moreover then obtain c3 r3 where "r2 = c3 # r3" "length r3 = 8" by (cases r2) auto
  moreover then obtain c4 r4 where "r3 = c4 # r4" "length r4 = 7" by (cases r3) auto
  moreover then obtain c5 r5 where "r4 = c5 # r5" "length r5 = 6" by (cases r4) auto
  moreover then obtain c6 r6 where "r5 = c6 # r6" "length r6 = 5" by (cases r5) auto
  moreover then obtain c7 r7 where "r6 = c7 # r7" "length r7 = 4" by (cases r6) auto
  moreover then obtain c8 r8 where "r7 = c8 # r8" "length r8 = 3" by (cases r7) auto
  moreover then obtain c9 r9 where "r8 = c9 # r9" "length r9 = 2" by (cases r8) auto
  moreover then obtain c10 r10 where "r9 = c10 # r10" "length r10 = 1" by (cases r9) auto
  moreover then obtain c11 where "r10 = [c11]" by (cases r10) auto
  ultimately show ?thesis using that by blast
qed

lemma formatMacAddress_regroups:
  assumes len: "length (removeSeparators (toLowerCase raw)) = 12"
    and nolt: "list_all (\<lambda>x. \<not> isLineTerminator x) (removeSeparators (toLowerCase raw))"
  shows "formatMacAddress raw =
           (let c = removeSeparators (toLowerCase raw)
            in [c ! 0, c ! 1, CHR '':'', c ! 2, c ! 3, CHR '':'', c ! 4, c ! 5, CHR '':'',
                c ! 6, c ! 7, CHR '':'', c ! 8, c ! 9, CHR '':'', c ! 10, c ! 11])"
proof -
  from len obtain c0 c1 c2 c3 c4 c5 c6 c7 c8 c9 c10 c11
    where c: "removeSeparators (toLowerCase raw) = [c0, c1, c2, c3, c4, c5, c6, c7, c8, c9, c10, c11]"
    by (rule length_12_cases)
  from nolt show ?thesis
    by (simp add: formatMacAddress_def c)
qed

lemma formatMacAddress_passthrough:
  "length (removeSeparators (toLowerCase raw)) \<noteq> 12 \<Longrightarrow>
     formatMacAddress raw = removeSeparators (toLowerCase raw)"
  by (simp add: formatMacAddress_def)

lemma hex_not_terminator:
  "x \<in> set ''0123456789abcdef'' \<Longrightarrow> \<not> isLineTerminator x"
  by (auto simp: isLineTerminator_def)

text \<open>
  C2. The MAC normalizer lower-cases its input and removes every \<open>.\<close>, \<open>:\<close> and \<open>-\<close>.
  When 12 hexadecimal-looking characters remain, the result is those characters in pairs,
  a \<open>:\<close> after each pair but the last (six octets); when the cleaned string's length is
  not 12, the result is the cleaned string itself. The function is total: no input makes
  it fail. \<open>001E.0B41.7AFD\<close> becomes \<open>00:1e:0b:41:7a:fd\<close> and \<open>not-a-mac\<close> becomes
  \<open>notamac\<close>.
\<close>

theorem formatMacAddress_normalizes:
  "(let c = removeSeparators (toLowerCase raw)
    in (length c = 12 \<and> set c \<subseteq> set ''0123456789abcdef'' \<longrightarrow>
          formatMacAddress raw =
            [c ! 0, c ! 1, CHR '':'', c ! 2, c ! 3, CHR '':'', c ! 4, c ! 5, CHR '':'',
             c ! 6, c ! 7, CHR '':'', c ! 8, c ! 9, CHR '':'', c ! 10, c ! 11])
     \<and> (length c \<noteq> 12 \<longrightarrow> formatMacAddress raw = c)
     \<and> c = filter (\<lambda>x. x \<notin> set ''.:-'') (map toLowerCaseChar raw))
   \<and> formatMacAddress ''001E.0B41.7AFD'' = ''00:1e:0b:41:7a:fd''
   \<and> formatMacAddress ''not-a-mac'' = ''notamac''"
proof -
  have ex1: "formatMacAddress ''001E.0B41.7AFD'' = ''00:1e:0b:41:7a:fd''"
    by code_simp
  have ex2: "formatMacAddress ''not-a-mac'' = ''notamac''"
    by code_simp
  have regroup: "formatMacAddress raw =
      (let c = removeSeparators (toLowerCase raw)
       in [c ! 0, c ! 1, CHR '':'', c ! 2, c ! 3, CHR '':'', c ! 4, c ! 5, CHR '':'',
           c ! 6, c ! 7, CHR '':'', c ! 8, c ! 9, CHR '':'', c ! 10, c ! 11])"
    if "length (removeSeparators (toLowerCase raw)) = 12"
      and "set (removeSeparators (toLowerCase raw)) \<subseteq> set ''0123456789abcdef''"
  proof (rule formatMacAddress_regroups [OF that(1)])
    show "list_all (\<lambda>x. \<not> isLineTerminator x) (removeSeparators (toLowerCase raw))"
      unfolding list_all_iff using that(2) hex_not_terminator by blast
  qed
  have cleaned: "removeSeparators (toLowerCase raw) =
      filter (\<lambda>x. x \<notin> set ''.:-'') (map toLowerCaseChar raw)"
    by (simp add: removeSeparators_def toLowerCase_def)
  show ?thesis
    using ex1 ex2 regroup formatMacAddress_passthrough [of raw] cleaned
    by (simp add: Let_def)
qed

theorem formatMacAddress_normalizes_witness:
  "length (removeSeparators (toLowerCase ''001E.0B41.7AFD'')) = 12
   \<and> set (removeSeparators (toLowerCase ''001E.0B41.7AFD'')) \<subseteq> set ''0123456789abcdef''
   \<and> formatMacAddress ''001E.0B41.7AFD'' = ''00:1e:0b:41:7a:fd''
   \<and> length (removeSeparators (toLowerCase ''not-a-mac'')) \<noteq> 12
   \<and> formatMacAddress ''not-a-mac'' = removeSeparators (toLowerCase ''not-a-mac'')"
proof -
  have c: "removeSeparators (toLowerCase ''001E.0B41.7AFD'') = ''001e0b417afd''"
    by code_simp
  have d: "removeSeparators (toLowerCase ''not-a-mac'') = ''notamac''"
    by code_simp
  note regrouped =
    formatMacAddress_normalizes [of "''001E.0B41.7AFD''", unfolded Let_def,
      THEN conjunct1, THEN conjunct1]
  note unchanged =
    formatMacAddress_normalizes [of "''not-a-mac''", unfolded Let_def,
      THEN conjunct1, THEN conjunct2, THEN conjunct1]
  show ?thesis
    using regrouped unchanged unfolding c d by simp
qed

section \<open>Properties of parseFileContent: one line\<close>


lemma splitWhiteSpace_last:
  "dropWhile (\<lambda>c. \<not> isWhiteSpace c) s = [] \<Longrightarrow>
     splitWhiteSpace s = [takeWhile (\<lambda>c. \<not> isWhiteSpace c) s]"
  by (subst splitWhiteSpace.simps) (simp only: list.case)

lemma splitWhiteSpace_next:
  "dropWhile (\<lambda>c. \<not> isWhiteSpace c) s = w # r \<Longrightarrow>
     splitWhiteSpace s =
       takeWhile (\<lambda>c. \<not> isWhiteSpace c) s # splitWhiteSpace (dropWhile isWhiteSpace r)"
  by (subst splitWhiteSpace.simps) (simp only: list.case)


lemma splitWhiteSpace_pieces_no_space:
  "t \<in> set (splitWhiteSpace s) \<Longrightarrow> x \<in> set t \<Longrightarrow> \<not> isWhiteSpace x"
proof (induction s rule: splitWhiteSpace.induct)
  case (1 s)
  let ?rest = "dropWhile (\<lambda>c. \<not> isWhiteSpace c) s"
  show ?case
  proof (cases ?rest)
    case Nil
    with "1.prems" have "t = takeWhile (\<lambda>c. \<not> isWhiteSpace c) s"
      by (simp add: splitWhiteSpace_last)
    with "1.prems" show ?thesis by (auto dest: set_takeWhileD)
  next
    case (Cons w r)
    with "1.prems" have "t = takeWhile (\<lambda>c. \<not> isWhiteSpace c) s \<or>
        t \<in> set (splitWhiteSpace (dropWhile isWhiteSpace r))"
      by (simp add: splitWhiteSpace_next)
    then show ?thesis
    proof
      assume "t = takeWhile (\<lambda>c. \<not> isWhiteSpace c) s"
      with "1.prems" show ?thesis by (auto dest: set_takeWhileD)
    next
      assume "t \<in> set (splitWhiteSpace (dropWhile isWhiteSpace r))"
      then show ?thesis using "1.IH" [OF Cons] "1.prems" by simp
    qed
  qed
qed




lemma digit_not_space: "isDigit c \<Longrightarrow> \<not> isWhiteSpace c"
  by (auto simp: isDigit_def isWhiteSpace_def)

lemma digit_not_sign: "isDigit c \<Longrightarrow> c \<noteq> CHR ''+'' \<and> c \<noteq> CHR ''-'' \<and> c \<noteq> CHR ''=''"
  by (auto simp: isDigit_def)

lemma space_not_digit: "isWhiteSpace c \<Longrightarrow> \<not> isDigit c"
  by (auto simp: isDigit_def isWhiteSpace_def)

lemma quote_not_space: "isQuote c \<Longrightarrow> \<not> isWhiteSpace c"
  by (auto simp: isQuote_def isWhiteSpace_def)

lemma quote_not_terminator: "isQuote c \<Longrightarrow> \<not> isLineTerminator c"
  by (auto simp: isQuote_def isLineTerminator_def)

lemma equals_sign: "\<not> isDigit (CHR ''='')" "\<not> isWhiteSpace (CHR ''='')"
  by (simp_all add: isDigit_def isWhiteSpace_def)

lemma parseInt10_digits:
  assumes "ds \<noteq> []" and "list_all isDigit ds"
  shows "parseInt10 ds = Some (int (digitsValue ds))"
proof -
  from assms obtain d r where ds: "ds = d # r" and d: "isDigit d"
    by (cases ds) auto
  have t: "takeWhile isDigit r = r"
    using assms(2) ds by (simp add: list_all_iff)
  have "parseInt10 (d # r) = Some (int (digitsValue (d # takeWhile isDigit r)))"
    using d digit_not_space [OF d] digit_not_sign [OF d]
    by (simp add: parseInt10_def)
  then show ?thesis
    by (simp only: t ds)
qed

lemma numberToString_nat: "numberToString (int n) = natToString n"
  by (simp add: numberToString_def)

lemma digitChar_value: "d < 10 \<Longrightarrow> digitValue (digitChar d) = d"
  by (simp add: digitValue_def digitChar_def)

lemma digitChar_digit: "d < 10 \<Longrightarrow> isDigit (digitChar d)"
  by (simp add: isDigit_def digitChar_def)

lemma digitsValue_snoc: "digitsValue (ds @ [c]) = 10 * digitsValue ds + digitValue c"
  by (simp add: digitsValue_def)

lemma digitsValue_natToString: "digitsValue (natToString n) = n"
proof (induction n rule: natToString.induct)
  case (1 n)
  show ?case
  proof (cases "n < 10")
    case True
    then show ?thesis
      by (subst natToString.simps) (simp add: digitsValue_def digitChar_value)
  next
    case False
    have "digitValue (digitChar (n mod 10)) = n mod 10"
      by (rule digitChar_value) simp
    with False "1.IH" show ?thesis
      by (subst natToString.simps) (simp add: digitsValue_snoc)
  qed
qed

lemma natToString_digits: "list_all isDigit (natToString n)"
proof (induction n rule: natToString.induct)
  case (1 n)
  show ?case
  proof (cases "n < 10")
    case True
    then show ?thesis by (subst natToString.simps) (simp add: digitChar_digit)
  next
    case False
    have "isDigit (digitChar (n mod 10))"
      by (rule digitChar_digit) simp
    with False "1.IH" show ?thesis by (subst natToString.simps) simp
  qed
qed

lemma takeWhile_run:
  "list_all P xs \<Longrightarrow> ys = [] \<or> \<not> P (hd ys) \<Longrightarrow> takeWhile P (xs @ ys) = xs"
  by (cases ys) (auto simp: list_all_iff takeWhile_append2)

lemma dropWhile_run:
  "list_all P xs \<Longrightarrow> ys = [] \<or> \<not> P (hd ys) \<Longrightarrow> dropWhile P (xs @ ys) = ys"
  by (cases ys) (auto simp: list_all_iff dropWhile_append2)

lemma mappingMatch_declaration:
  assumes digits: "ds \<noteq> []" "list_all isDigit ds"
    and spaces: "list_all isWhiteSpace w1" "list_all isWhiteSpace w2"
    and q1: "q1 = [] \<or> (\<exists>c. isQuote c \<and> q1 = [c])"
    and q2: "q2 = [] \<or> (\<exists>c. isQuote c \<and> q2 = [c])"
    and noterm: "\<not> list_ex isLineTerminator name"
    and nameFront: "q1 = [] \<and> name \<noteq> [] \<longrightarrow> \<not> isWhiteSpace (hd name) \<and> \<not> isQuote (hd name)"
    and nameBack: "q2 = [] \<and> name \<noteq> [] \<longrightarrow> \<not> isQuote (last name)"
  shows "mappingMatch (ds @ w1 @ ''='' @ w2 @ q1 @ name @ q2) = Some (ds, name)"
proof -
  let ?tail = "q1 @ name @ q2"
  let ?afterDigits = "w1 @ CHR ''='' # w2 @ ?tail"
  have h1: "?afterDigits = [] \<or> \<not> isDigit (hd ?afterDigits)"
    using spaces(1) equals_sign space_not_digit by (cases w1) auto
  have g1: "takeWhile isDigit (ds @ ?afterDigits) = ds"
    using digits(2) h1 by (rule takeWhile_run)
  have r0: "dropWhile isDigit (ds @ ?afterDigits) = ?afterDigits"
    using digits(2) h1 by (rule dropWhile_run)
  have r1: "dropWhile isWhiteSpace ?afterDigits = CHR ''='' # w2 @ ?tail"
    using dropWhile_run [OF spaces(1), of "CHR ''='' # w2 @ ?tail"] equals_sign by simp
  have tail_front: "?tail = [] \<or> \<not> isWhiteSpace (hd ?tail)"
    using q1 q2 nameFront quote_not_space by (cases name) auto
  have r2: "dropWhile isWhiteSpace (w2 @ ?tail) = ?tail"
    using spaces(2) tail_front by (rule dropWhile_run)
  define body where "body = (case ?tail of [] \<Rightarrow> [] | q # t \<Rightarrow> if isQuote q then t else ?tail)"
  have body: "body = (if q1 = [] \<and> name = [] then [] else name @ q2)"
    unfolding body_def using q1 q2 nameFront by (cases name) auto
  have nolt: "\<not> list_ex isLineTerminator body"
    unfolding body using noterm q2 quote_not_terminator by (auto simp: list_ex_iff)
  have strip: "(if body \<noteq> [] \<and> isQuote (last body) then butlast body else body) = name"
    unfolding body using q2 nameBack by (cases "name = []") auto
  have "mappingMatch (ds @ ?afterDigits) =
      (if list_ex isLineTerminator body then None
       else Some (ds, if body \<noteq> [] \<and> isQuote (last body) then butlast body else body))"
    unfolding body_def
    by (simp add: mappingMatch_def Let_def g1 r0 r1 r2 digits(1) cong: if_cong list.case_cong)
  then show ?thesis
    using nolt strip by simp
qed

lemma mappingMatch_accepts:
  assumes digits: "ds \<noteq> []" "list_all isDigit ds"
    and spaces: "list_all isWhiteSpace w1" "list_all isWhiteSpace w2"
    and q1: "q1 = [] \<or> (\<exists>c. isQuote c \<and> q1 = [c])"
    and q2: "q2 = [] \<or> (\<exists>c. isQuote c \<and> q2 = [c])"
    and noterm: "\<not> list_ex isLineTerminator name"
  shows "\<exists>g2. mappingMatch (ds @ w1 @ ''='' @ w2 @ q1 @ name @ q2) = Some (ds, g2)"
proof -
  let ?tail = "q1 @ name @ q2"
  let ?afterDigits = "w1 @ CHR ''='' # w2 @ ?tail"
  have h1: "?afterDigits = [] \<or> \<not> isDigit (hd ?afterDigits)"
    using spaces(1) equals_sign space_not_digit by (cases w1) auto
  have g1: "takeWhile isDigit (ds @ ?afterDigits) = ds"
    using digits(2) h1 by (rule takeWhile_run)
  have r0: "dropWhile isDigit (ds @ ?afterDigits) = ?afterDigits"
    using digits(2) h1 by (rule dropWhile_run)
  have r1: "dropWhile isWhiteSpace ?afterDigits = CHR ''='' # w2 @ ?tail"
    using dropWhile_run [OF spaces(1), of "CHR ''='' # w2 @ ?tail"] equals_sign by simp
  define v where "v = dropWhile isWhiteSpace (w2 @ ?tail)"
  define body where "body = (case v of [] \<Rightarrow> [] | q # t \<Rightarrow> if isQuote q then t else v)"
  have "set v \<subseteq> set ?tail"
    unfolding v_def using spaces(2) set_dropWhileD [of _ isWhiteSpace ?tail]
    by (auto simp: list_all_iff dropWhile_append2)
  moreover have "set body \<subseteq> set v"
    unfolding body_def by (cases v) auto
  moreover have "\<forall>x\<in>set ?tail. \<not> isLineTerminator x"
    using q1 q2 noterm quote_not_terminator by (auto simp: list_ex_iff)
  ultimately have nolt: "\<not> list_ex isLineTerminator body"
    by (auto simp: list_ex_iff)
  have "mappingMatch (ds @ ?afterDigits) =
      (if list_ex isLineTerminator body then None
       else Some (ds, if body \<noteq> [] \<and> isQuote (last body) then butlast body else body))"
    unfolding body_def v_def
    by (simp add: mappingMatch_def Let_def g1 r0 r1 digits(1) cong: if_cong list.case_cong)
  then show ?thesis
    using nolt by simp
qed

lemma opening_quote_split:
  "x = (case x of [] \<Rightarrow> [] | q # t \<Rightarrow> if P q then [q] else []) @
       (case x of [] \<Rightarrow> [] | q # t \<Rightarrow> if P q then t else x)"
  by (cases x) auto

lemma mappingMatch_shape:
  assumes "mappingMatch l = Some (g1, g2)"
  shows "\<exists>w1 w2 q1 q2.
           l = g1 @ w1 @ ''='' @ w2 @ q1 @ g2 @ q2
           \<and> g1 \<noteq> [] \<and> list_all isDigit g1 \<and> list_all isWhiteSpace w1 \<and> list_all isWhiteSpace w2
           \<and> (q1 = [] \<or> (\<exists>c. isQuote c \<and> q1 = [c])) \<and> (q2 = [] \<or> (\<exists>c. isQuote c \<and> q2 = [c]))
           \<and> \<not> list_ex isLineTerminator g2
           \<and> (q1 = [] \<and> g2 \<noteq> [] \<longrightarrow> \<not> isWhiteSpace (hd g2) \<and> \<not> isQuote (hd g2))
           \<and> (q2 = [] \<and> g2 \<noteq> [] \<longrightarrow> \<not> isQuote (last g2))"
proof -
  let ?a = "dropWhile isDigit l"
  let ?w1 = "takeWhile isWhiteSpace ?a"
  from assms have g1: "g1 = takeWhile isDigit l" and ne: "g1 \<noteq> []"
    by (auto simp: mappingMatch_def Let_def split: if_splits list.splits)
  from assms obtain r where r: "dropWhile isWhiteSpace ?a = CHR ''='' # r"
    by (auto simp: mappingMatch_def Let_def split: if_splits list.splits)
  let ?w2 = "takeWhile isWhiteSpace r"
  define v where "v = dropWhile isWhiteSpace r"
  define body where "body = (case v of [] \<Rightarrow> [] | q # t \<Rightarrow> if isQuote q then t else v)"
  have "mappingMatch l =
      (if list_ex isLineTerminator body then None
       else Some (g1, if body \<noteq> [] \<and> isQuote (last body) then butlast body else body))"
    unfolding body_def v_def using r ne g1
    by (simp add: mappingMatch_def Let_def cong: if_cong list.case_cong)
  with assms have nolt: "\<not> list_ex isLineTerminator body"
    and g2: "g2 = (if body \<noteq> [] \<and> isQuote (last body) then butlast body else body)"
    by (auto split: if_splits)
  define q1 where "q1 = (case v of [] \<Rightarrow> [] | q # t \<Rightarrow> if isQuote q then [q] else [])"
  define q2 where "q2 = (if body \<noteq> [] \<and> isQuote (last body) then [last body] else [])"
  have v: "v = q1 @ body"
    unfolding q1_def body_def by (rule opening_quote_split)
  have b: "body = g2 @ q2"
    unfolding g2 q2_def by simp
  have l: "l = g1 @ ?w1 @ ''='' @ ?w2 @ q1 @ g2 @ q2"
  proof -
    have "l = g1 @ ?a" unfolding g1 by simp
    also have "?a = ?w1 @ dropWhile isWhiteSpace ?a" by simp
    also have "dropWhile isWhiteSpace ?a = CHR ''='' # r" by (rule r)
    also have "r = ?w2 @ v" unfolding v_def by simp
    also have "v = q1 @ g2 @ q2" using v b by simp
    finally show ?thesis by simp
  qed
  have dig: "list_all isDigit g1"
    unfolding g1 list_all_iff by (auto dest: set_takeWhileD)
  have sp: "list_all isWhiteSpace ?w1" "list_all isWhiteSpace ?w2"
    unfolding list_all_iff by (auto dest: set_takeWhileD)
  have oq1: "q1 = [] \<or> (\<exists>c. isQuote c \<and> q1 = [c])"
    unfolding q1_def by (cases v) auto
  have oq2: "q2 = [] \<or> (\<exists>c. isQuote c \<and> q2 = [c])"
    unfolding q2_def by auto
  have nl2: "\<not> list_ex isLineTerminator g2"
    using nolt b by (auto simp: list_ex_iff)
  have hv: "v \<noteq> [] \<Longrightarrow> \<not> isWhiteSpace (hd v)"
    unfolding v_def by (rule hd_dropWhile)
  have fr: "q1 = [] \<and> g2 \<noteq> [] \<longrightarrow> \<not> isWhiteSpace (hd g2) \<and> \<not> isQuote (hd g2)"
  proof (intro impI, elim conjE)
    assume e: "q1 = []" and n: "g2 \<noteq> []"
    from e v b have vv: "v = g2 @ q2" by simp
    with n have "hd v = hd g2" and "v \<noteq> []" by auto
    moreover from e have "v \<noteq> [] \<Longrightarrow> \<not> isQuote (hd v)"
      unfolding q1_def by (cases v) (auto split: if_splits)
    ultimately show "\<not> isWhiteSpace (hd g2) \<and> \<not> isQuote (hd g2)"
      using hv by metis
  qed
  have bk: "q2 = [] \<and> g2 \<noteq> [] \<longrightarrow> \<not> isQuote (last g2)"
    using b unfolding q2_def by (auto split: if_splits)
  show ?thesis
    using l ne dig sp oq1 oq2 nl2 fr bk by blast
qed

lemma processLine_clients:
  "clients (processLine l st) = clients st @ clients (processLine l emptyParsed)"
  by (auto simp: processLine_def Let_def emptyParsed_def split: option.splits prod.splits)

lemma processLine_detected:
  "map_of (detectedMappings (processLine l st)) k =
     (case map_of (detectedMappings (processLine l emptyParsed)) k of
        None \<Rightarrow> map_of (detectedMappings st) k
      | Some s \<Rightarrow> Some s)"
  by (auto simp: processLine_def Let_def emptyParsed_def update_conv' split: option.splits prod.splits)

lemma fold_processLine_detected_unchanged:
  "\<forall>l\<in>set ls. map_of (detectedMappings (processLine l emptyParsed)) k = None \<Longrightarrow>
     map_of (detectedMappings (fold processLine ls st)) k = map_of (detectedMappings st) k"
proof (induction ls arbitrary: st)
  case Nil
  then show ?case by simp
next
  case (Cons l ls)
  have "map_of (detectedMappings (fold processLine ls (processLine l st))) k =
        map_of (detectedMappings (processLine l st)) k"
    using Cons by simp
  also have "\<dots> = map_of (detectedMappings st) k"
    using Cons.prems by (simp add: processLine_detected [of l st])
  finally show ?case by simp
qed

lemma parseFileContent_detected:
  "detectedMappings (parseFileContent content) =
     detectedMappings (fold processLine (splitChar (CHR 0x0A) (trim content)) emptyParsed)"
  by (simp add: parseFileContent_def Let_def)

lemma parseFileContent_clients:
  "clients (parseFileContent content) =
     clients (fold processLine (splitChar (CHR 0x0A) (trim content)) emptyParsed)"
  by (simp add: parseFileContent_def Let_def)

text \<open>
  C4. Let the trimmed line be decimal digits, optional white space, \<open>=\<close>, optional white
  space, an optional quote, a segment name and an optional closing quote (the name free of
  line terminators, and not itself beginning or ending with a quote where the line has
  none there). Then the line adds no record, and \<open>detectedMappings\<close> receives the name
  without the quotes under the key that is the decimal text of the parsed VLAN id. The
  entry survives every later line that declares nothing for that key, and replaces
  whatever an earlier line stored: the last declaration wins. The line \<open>5 = 'Guest'\<close>
  makes \<open>detectedMappings\<close> map \<open>"5"\<close> to \<open>"Guest"\<close>. By \<open>mappingMatch_shape\<close> every
  line the pattern matches has this form, with the name the pattern captures.
\<close>

theorem mapping_line_extraction:
  "(trim l = ds @ w1 @ ''='' @ w2 @ q1 @ name @ q2
    \<and> ds \<noteq> [] \<and> list_all isDigit ds \<and> list_all isWhiteSpace w1 \<and> list_all isWhiteSpace w2
    \<and> (q1 = [] \<or> (\<exists>c. isQuote c \<and> q1 = [c])) \<and> (q2 = [] \<or> (\<exists>c. isQuote c \<and> q2 = [c]))
    \<and> \<not> list_ex isLineTerminator name
    \<and> (q1 = [] \<and> name \<noteq> [] \<longrightarrow> \<not> isWhiteSpace (hd name) \<and> \<not> isQuote (hd name))
    \<and> (q2 = [] \<and> name \<noteq> [] \<longrightarrow> \<not> isQuote (last name))
    \<longrightarrow> (\<exists>vlanId. parseInt10 ds = Some vlanId
          \<and> processLine l st =
              st\<lparr>detectedMappings := AList.update (numberToString vlanId) name (detectedMappings st)\<rparr>
          \<and> clients (processLine l st) = clients st
          \<and> map_of (detectedMappings (processLine l st)) (numberToString vlanId) = Some name
          \<and> (\<forall>before after.
               (\<forall>l'\<in>set after.
                  map_of (detectedMappings (processLine l' emptyParsed)) (numberToString vlanId) = None)
               \<longrightarrow> map_of (detectedMappings (fold processLine (before @ l # after) emptyParsed))
                     (numberToString vlanId) = Some name)))
   \<and> map_of (detectedMappings (parseFileContent (''5 = '' @ [CHR 0x27] @ ''Guest'' @ [CHR 0x27])))
        ''5'' = Some ''Guest''"
proof -
  have ex: "map_of (detectedMappings (parseFileContent (''5 = '' @ [CHR 0x27] @ ''Guest'' @ [CHR 0x27])))
        ''5'' = Some ''Guest''"
    by code_simp
  have gen: "\<exists>vlanId. parseInt10 ds = Some vlanId
          \<and> processLine l st =
              st\<lparr>detectedMappings := AList.update (numberToString vlanId) name (detectedMappings st)\<rparr>
          \<and> clients (processLine l st) = clients st
          \<and> map_of (detectedMappings (processLine l st)) (numberToString vlanId) = Some name
          \<and> (\<forall>before after.
               (\<forall>l'\<in>set after.
                  map_of (detectedMappings (processLine l' emptyParsed)) (numberToString vlanId) = None)
               \<longrightarrow> map_of (detectedMappings (fold processLine (before @ l # after) emptyParsed))
                     (numberToString vlanId) = Some name)"
    if shape: "trim l = ds @ w1 @ ''='' @ w2 @ q1 @ name @ q2"
      and digits: "ds \<noteq> []" "list_all isDigit ds"
      and spaces: "list_all isWhiteSpace w1" "list_all isWhiteSpace w2"
      and q1: "q1 = [] \<or> (\<exists>c. isQuote c \<and> q1 = [c])"
      and q2: "q2 = [] \<or> (\<exists>c. isQuote c \<and> q2 = [c])"
      and noterm: "\<not> list_ex isLineTerminator name"
      and nameFront: "q1 = [] \<and> name \<noteq> [] \<longrightarrow> \<not> isWhiteSpace (hd name) \<and> \<not> isQuote (hd name)"
      and nameBack: "q2 = [] \<and> name \<noteq> [] \<longrightarrow> \<not> isQuote (last name)"
  proof -
    define vlanId where "vlanId = int (digitsValue ds)"
    have p: "parseInt10 ds = Some vlanId"
      unfolding vlanId_def using digits by (rule parseInt10_digits)
    have m: "mappingMatch (trim l) = Some (ds, name)"
      unfolding shape using digits spaces q1 q2 noterm nameFront nameBack
      by (rule mappingMatch_declaration)
    have ne: "trim l \<noteq> []"
      using shape digits(1) by simp
    have step: "processLine l s =
        s\<lparr>detectedMappings := AList.update (numberToString vlanId) name (detectedMappings s)\<rparr>" for s
      using ne m p by (simp add: processLine_def)
    have look: "map_of (detectedMappings (processLine l s)) (numberToString vlanId) = Some name" for s
      by (simp add: step update_conv')
    have last_wins: "map_of (detectedMappings (fold processLine (before @ l # after) emptyParsed))
                     (numberToString vlanId) = Some name"
      if "\<forall>l'\<in>set after.
            map_of (detectedMappings (processLine l' emptyParsed)) (numberToString vlanId) = None"
      for before after
      using fold_processLine_detected_unchanged [OF that] look by simp
    show ?thesis
      using p step [of st] look [of st] last_wins by (intro exI [of _ vlanId]) simp
  qed
  show ?thesis using ex gen by blast
qed

theorem mapping_line_extraction_witness:
  "trim (''5 = '' @ [CHR 0x27] @ ''Guest'' @ [CHR 0x27]) =
     ''5'' @ '' '' @ ''='' @ '' '' @ [CHR 0x27] @ ''Guest'' @ [CHR 0x27]
   \<and> list_all isDigit ''5'' \<and> list_all isWhiteSpace '' '' \<and> isQuote (CHR 0x27)
   \<and> \<not> list_ex isLineTerminator ''Guest''
   \<and> parseInt10 ''5'' = Some 5
   \<and> processLine (''5 = '' @ [CHR 0x27] @ ''Guest'' @ [CHR 0x27]) emptyParsed =
       emptyParsed\<lparr>detectedMappings := [(''5'', ''Guest'')]\<rparr>
   \<and> map_of (detectedMappings (processLine ''1 001e.0b41.7afd DYNAMIC Gi1/0/15'' emptyParsed)) ''5'' = None
   \<and> map_of (detectedMappings
         (fold processLine
            [''5 = Old'', ''5 = '' @ [CHR 0x27] @ ''Guest'' @ [CHR 0x27],
             ''1 001e.0b41.7afd DYNAMIC Gi1/0/15'']
            emptyParsed)) ''5'' = Some ''Guest''"
proof -
  let ?l = "''5 = '' @ [CHR 0x27] @ ''Guest'' @ [CHR 0x27]"
  have shape: "trim ?l = ''5'' @ '' '' @ ''='' @ '' '' @ [CHR 0x27] @ ''Guest'' @ [CHR 0x27]"
    by code_simp
  have classes: "list_all isDigit ''5''" "list_all isWhiteSpace '' ''" "isQuote (CHR 0x27)"
    "\<not> list_ex isLineTerminator ''Guest''"
    by code_simp+
  have quote: "[CHR 0x27] = [] \<or> (\<exists>c. isQuote c \<and> [CHR 0x27] = [c])"
    using classes(3) by blast
  have p: "parseInt10 ''5'' = Some 5" and n: "numberToString 5 = ''5''"
    by code_simp+
  have later: "map_of (detectedMappings (processLine ''1 001e.0b41.7afd DYNAMIC Gi1/0/15'' emptyParsed)) ''5'' = None"
    by code_simp
  from mapping_line_extraction
    [where l = "?l" and ds = "''5''" and ?w1.0 = "'' ''" and ?w2.0 = "'' ''"
       and ?q1.0 = "[CHR 0x27]" and name = "''Guest''" and ?q2.0 = "[CHR 0x27]"
       and st = emptyParsed]
    shape classes quote
  obtain v where v: "parseInt10 ''5'' = Some v"
    and step: "processLine ?l emptyParsed =
       emptyParsed\<lparr>detectedMappings := AList.update (numberToString v) ''Guest'' (detectedMappings emptyParsed)\<rparr>"
    and wins: "\<And>before after.
       \<forall>l'\<in>set after. map_of (detectedMappings (processLine l' emptyParsed)) (numberToString v) = None \<Longrightarrow>
       map_of (detectedMappings (fold processLine (before @ ?l # after) emptyParsed)) (numberToString v) = Some ''Guest''"
    by auto
  from v p have v5: "v = 5" by simp
  have s: "processLine ?l emptyParsed = emptyParsed\<lparr>detectedMappings := [(''5'', ''Guest'')]\<rparr>"
    using step unfolding v5 n by (simp add: emptyParsed_def)
  have w: "map_of (detectedMappings
         (fold processLine ([''5 = Old''] @ ?l # [''1 001e.0b41.7afd DYNAMIC Gi1/0/15'']) emptyParsed)) ''5'' = Some ''Guest''"
    using wins [of "[''1 001e.0b41.7afd DYNAMIC Gi1/0/15'']" "[''5 = Old'']"] later
    unfolding v5 n by simp
  show ?thesis
    using shape classes p s later w by simp
qed

section \<open>Properties of generateCsv\<close>

lemma splitChar_no_sep: "sep \<notin> set x \<Longrightarrow> splitChar sep x = [x]"
  by (induction x) auto

lemma splitChar_append_sep:
  "sep \<notin> set x \<Longrightarrow> splitChar sep (x @ sep # r) = x # splitChar sep r"
  by (induction x) auto

lemma splitChar_join:
  "xs \<noteq> [] \<Longrightarrow> \<forall>x\<in>set xs. sep \<notin> set x \<Longrightarrow> splitChar sep (join [sep] xs) = xs"
proof (induction xs)
  case Nil
  then show ?case by simp
next
  case (Cons x xs)
  show ?case
  proof (cases xs)
    case Nil
    with Cons.prems show ?thesis by (simp add: splitChar_no_sep)
  next
    case (Cons y ys)
    with Cons.IH Cons.prems show ?thesis by (simp add: splitChar_append_sep)
  qed
qed

lemma length_splitChar: "length (splitChar sep s) = Suc (count_list s sep)"
  by (induction s) (auto split: list.splits)

lemma count_list_append: "count_list (xs @ ys) a = count_list xs a + count_list ys a"
  by (induction xs) auto

lemma count_list_join:
  "count_list (join [sep] xs) sep =
     (length xs - 1) + sum_list (map (\<lambda>x. count_list x sep) xs)"
proof (induction xs)
  case Nil
  then show ?case by simp
next
  case (Cons x xs)
  then show ?case by (cases xs) (simp_all add: count_list_append)
qed

lemma set_join: "set (join sep xs) \<subseteq> set sep \<union> \<Union> (set ` set xs)"
proof (induction xs)
  case Nil
  then show ?case by simp
next
  case (Cons x xs)
  then show ?case by (cases xs) auto
qed

lemma last_join:
  "xs \<noteq> [] \<Longrightarrow> last xs \<noteq> [] \<Longrightarrow> join sep xs \<noteq> [] \<and> last (join sep xs) = last (last xs)"
proof (induction xs)
  case Nil
  then show ?case by simp
next
  case (Cons x xs)
  then show ?case by (cases xs) auto
qed

lemma hd_splitChar_append_sep:
  "sep \<notin> set x \<Longrightarrow> hd (splitChar sep (x @ sep # r)) = x"
  by (simp add: splitChar_append_sep)

lemma headers_no_comma: "\<forall>h\<in>set headers. CHR '','' \<notin> set h"
  by (simp add: headers_def)

lemma headers_no_newline: "\<forall>h\<in>set headers. CHR 0x0A \<notin> set h"
  by (simp add: headers_def)

lemma header_line_no_newline: "CHR 0x0A \<notin> set (join '','' headers)"
  using set_join [of "'',''" headers] headers_no_newline by auto

lemma csvRow_line_no_newline:
  "\<forall>f\<in>set (csvRow m c). CHR 0x0A \<notin> set f \<Longrightarrow> CHR 0x0A \<notin> set (join '','' (csvRow m c))"
  using set_join [of "'',''" "csvRow m c"] by auto

lemma csvRows_no_newline:
  "\<forall>c\<in>set cs. \<forall>f\<in>set (csvRow m c). CHR 0x0A \<notin> set f \<Longrightarrow>
     \<forall>r\<in>set (csvRows cs m). CHR 0x0A \<notin> set r"
  using header_line_no_newline csvRow_line_no_newline by (auto simp: csvRows_def)

lemma lines_generateCsv:
  "\<forall>c\<in>set cs. \<forall>f\<in>set (csvRow m c). CHR 0x0A \<notin> set f \<Longrightarrow>
     splitChar (CHR 0x0A) (generateCsv cs m) = csvRows cs m"
  unfolding generateCsv_def
  by (rule splitChar_join) (simp add: csvRows_def, rule csvRows_no_newline)

lemma first_line_generateCsv:
  "hd (splitChar (CHR 0x0A) (generateCsv cs m)) = join '','' headers"
proof (cases cs)
  case Nil
  then show ?thesis
    using header_line_no_newline by (simp add: generateCsv_def csvRows_def splitChar_no_sep)
next
  case (Cons c cs')
  then show ?thesis
    using header_line_no_newline by (simp add: generateCsv_def csvRows_def splitChar_append_sep)
qed

lemma fields_of_header: "splitChar (CHR '','') (join '','' headers) = headers"
  by (rule splitChar_join) (simp add: headers_def, rule headers_no_comma)

lemma csvRow_field_count:
  "length (splitChar (CHR '','') (join '','' (csvRow m c))) =
     11 + count_list (formatMacAddress (mac c)) (CHR '','') + count_list (segmentOf m c) (CHR '','')"
  by (simp add: length_splitChar csvRow_def count_list_append)

lemma fields_of_csvRow:
  "CHR '','' \<notin> set (formatMacAddress (mac c)) \<Longrightarrow> CHR '','' \<notin> set (segmentOf m c) \<Longrightarrow>
     splitChar (CHR '','') (join '','' (csvRow m c)) = csvRow m c"
  by (rule splitChar_join) (simp_all add: csvRow_def)

lemma generateCsv_last:
  "generateCsv cs m \<noteq> [] \<and> last (generateCsv cs m) \<noteq> CHR 0x0A"
proof -
  have rows: "csvRows cs m \<noteq> []" by (simp add: csvRows_def)
  have hdr: "join '','' headers \<noteq> [] \<and> last (join '','' headers) = CHR '')''"
    by (simp add: headers_def)
  have row: "join '','' (csvRow m c) \<noteq> [] \<and> last (join '','' (csvRow m c)) = CHR ''o''" for c
    by (simp add: csvRow_def)
  have "last (csvRows cs m) \<noteq> [] \<and> last (last (csvRows cs m)) \<noteq> CHR 0x0A"
  proof (cases cs rule: rev_cases)
    case Nil
    then show ?thesis using hdr by (simp add: csvRows_def)
  next
    case (snoc cs' c)
    then show ?thesis using row [of c] by (simp add: csvRows_def)
  qed
  then show ?thesis
    using last_join [OF rows, of "[CHR 0x0A]"] by (simp add: generateCsv_def)
qed

text \<open>
  C10. The CSV text is the header line followed by one line per record, the lines joined
  by single line feeds. With no records it is the header line alone. It is never empty
  and never ends in a line feed. When no field of any row holds a line feed, the text
  splits at its line feeds into exactly the header line and the rows, which makes
  \<open>1 + (number of records)\<close> lines and as many line feeds as records.
\<close>

theorem generateCsv_text:
  "generateCsv cs m =
     join [CHR 0x0A] (join '','' headers # map (\<lambda>c. join '','' (csvRow m c)) cs)
   \<and> generateCsv [] m = join '','' headers
   \<and> generateCsv cs m \<noteq> [] \<and> last (generateCsv cs m) \<noteq> CHR 0x0A
   \<and> ((\<forall>c\<in>set cs. \<forall>f\<in>set (csvRow m c). CHR 0x0A \<notin> set f) \<longrightarrow>
         splitChar (CHR 0x0A) (generateCsv cs m) =
           join '','' headers # map (\<lambda>c. join '','' (csvRow m c)) cs
         \<and> length (splitChar (CHR 0x0A) (generateCsv cs m)) = 1 + length cs
         \<and> count_list (generateCsv cs m) (CHR 0x0A) = length cs)"
proof -
  have a: "generateCsv cs m =
     join [CHR 0x0A] (join '','' headers # map (\<lambda>c. join '','' (csvRow m c)) cs)"
    by (simp add: generateCsv_def csvRows_def)
  have b: "generateCsv [] m = join '','' headers"
    by (simp add: generateCsv_def csvRows_def)
  have c: "splitChar (CHR 0x0A) (generateCsv cs m) =
           join '','' headers # map (\<lambda>c. join '','' (csvRow m c)) cs
         \<and> length (splitChar (CHR 0x0A) (generateCsv cs m)) = 1 + length cs
         \<and> count_list (generateCsv cs m) (CHR 0x0A) = length cs"
    if "\<forall>c\<in>set cs. \<forall>f\<in>set (csvRow m c). CHR 0x0A \<notin> set f"
  proof -
    have l: "splitChar (CHR 0x0A) (generateCsv cs m) = csvRows cs m"
      using that by (rule lines_generateCsv)
    have "Suc (count_list (generateCsv cs m) (CHR 0x0A)) = length (csvRows cs m)"
      using l length_splitChar [of "CHR 0x0A" "generateCsv cs m"] by simp
    then show ?thesis
      using l by (simp add: csvRows_def)
  qed
  show ?thesis
    using a b c generateCsv_last [of cs m] by blast
qed

theorem generateCsv_text_witness:
  "list_all (\<lambda>f. CHR 0x0A \<notin> set f) (csvRow [] \<lparr>vlan = 1, mac = ''001e.0b41.7afd'', port = ''Gi1/0/15''\<rparr>)
   \<and> length (splitChar (CHR 0x0A)
        (generateCsv [\<lparr>vlan = 1, mac = ''001e.0b41.7afd'', port = ''Gi1/0/15''\<rparr>] [])) = 2
   \<and> splitChar (CHR 0x0A)
        (generateCsv [\<lparr>vlan = 1, mac = ''001e.0b41.7afd'', port = ''Gi1/0/15''\<rparr>] []) ! 1 =
       ''00:1e:0b:41:7a:fd,,,,,,Allow,,No,,No''"
proof -
  let ?c = "\<lparr>vlan = 1, mac = ''001e.0b41.7afd'', port = ''Gi1/0/15''\<rparr>"
  have row: "csvRow [] ?c = [''00:1e:0b:41:7a:fd'', [], [], [], [], [], ''Allow'', [], ''No'', [], ''No'']"
    by code_simp
  have h: "\<forall>c\<in>set [?c]. \<forall>f\<in>set (csvRow [] c). CHR 0x0A \<notin> set f"
    by (simp add: row)
  from generateCsv_text [of "[?c]" "[]"] h
  have l: "splitChar (CHR 0x0A) (generateCsv [?c] []) =
      join '','' headers # map (\<lambda>c. join '','' (csvRow [] c)) [?c]"
    by blast
  show ?thesis
    unfolding l by (simp add: row)
qed

text \<open>
  C1, as the source has it. \<open>generateCsv\<close> takes the records and the mapping table and no
  column switch: for every list of records and every table, the first line of the text is
  the eleven column names, the seven from \<open>MAC Address (Required)\<close> to
  \<open>Allow or Deny (Required)\<close> followed by the four of \<open>Description\<close>, \<open>Static IP\<close>,
  \<open>IP Address\<close> and \<open>Passive IP\<close>; there is one row per record, and a row splits at its
  commas into eleven fields, and one more for every comma inside its MAC text or its
  segment name (fields are joined without quoting).
\<close>

theorem generateCsv_columns:
  "hd (splitChar (CHR 0x0A) (generateCsv cs m)) = join '','' headers
   \<and> splitChar (CHR '','') (join '','' headers) =
       [''MAC Address (Required)'', ''Segment (Required for allow state)'',
        ''Lock to Port (Optional)'', ''Site (Optional)'', ''Building (Optional)'',
        ''Floor (Optional)'', ''Allow or Deny (Required)'']
       @ [''Description (Optional)'', ''Static IP (Optional)'', ''IP Address (Optional)'',
          ''Passive IP (Optional)'']
   \<and> tl (csvRows cs m) = map (\<lambda>c. join '','' (csvRow m c)) cs
   \<and> map (\<lambda>row. length (splitChar (CHR '','') row)) (tl (csvRows cs m)) =
       map (\<lambda>c. 11 + count_list (formatMacAddress (mac c)) (CHR '','')
                    + count_list (segmentOf m c) (CHR '','')) cs"
proof -
  have "splitChar (CHR '','') (join '','' headers) = headers"
    by (rule fields_of_header)
  then show ?thesis
    by (simp add: first_line_generateCsv csvRows_def csvRow_field_count) (simp add: headers_def)
qed

text \<open>
  C1 as stated asks for a seven-column header and seven fields per row when the IP columns
  are not wanted. The source has one rendering only: for the record
  \<open>{vlan: 1, mac: "001e.0b41.7afd", port: "Gi1/0/15"}\<close> and an empty table the header has
  eleven columns, not the seven base ones, and the row has eleven fields.
\<close>

theorem generateCsv_columns_counterexample:
  "length (splitChar (CHR '','') (hd (splitChar (CHR 0x0A)
      (generateCsv [\<lparr>vlan = 1, mac = ''001e.0b41.7afd'', port = ''Gi1/0/15''\<rparr>] [])))) = 11
   \<and> splitChar (CHR '','') (hd (splitChar (CHR 0x0A)
      (generateCsv [\<lparr>vlan = 1, mac = ''001e.0b41.7afd'', port = ''Gi1/0/15''\<rparr>] []))) \<noteq>
       [''MAC Address (Required)'', ''Segment (Required for allow state)'',
        ''Lock to Port (Optional)'', ''Site (Optional)'', ''Building (Optional)'',
        ''Floor (Optional)'', ''Allow or Deny (Required)'']
   \<and> splitChar (CHR '','') (splitChar (CHR 0x0A)
      (generateCsv [\<lparr>vlan = 1, mac = ''001e.0b41.7afd'', port = ''Gi1/0/15''\<rparr>] []) ! 1) =
       [''00:1e:0b:41:7a:fd'', [], [], [], [], [], ''Allow'', [], ''No'', [], ''No'']"
  by code_simp

text \<open>
  C5. The fields of a rendered record are, in order: the normalized MAC; the segment,
  which is the table's entry under the record's VLAN id when there is one and the empty
  string when there is none; four empty fields (Lock to Port, Site, Building, Floor); the
  literal \<open>Allow\<close>; and then Description empty, Static IP \<open>No\<close>, IP Address empty and
  Passive IP \<open>No\<close>. The rows of the CSV are these field lists joined by commas, one per
  record, and when neither the MAC nor the segment holds a comma the row splits back into
  exactly these fields.
\<close>

theorem csvRow_fields:
  "csvRow m c =
     [formatMacAddress (mac c),
      (case map_of m (numberToString (vlan c)) of None \<Rightarrow> [] | Some s \<Rightarrow> s),
      [], [], [], [], ''Allow'', [], ''No'', [], ''No'']
   \<and> tl (csvRows cs m) = map (\<lambda>c. join '','' (csvRow m c)) cs
   \<and> (CHR '','' \<notin> set (formatMacAddress (mac c)) \<and> CHR '','' \<notin> set (segmentOf m c) \<longrightarrow>
        splitChar (CHR '','') (join '','' (csvRow m c)) =
          [formatMacAddress (mac c),
           (case map_of m (numberToString (vlan c)) of None \<Rightarrow> [] | Some s \<Rightarrow> s),
           [], [], [], [], ''Allow'', [], ''No'', [], ''No''])"
proof -
  have seg: "segmentOf m c = (case map_of m (numberToString (vlan c)) of None \<Rightarrow> [] | Some s \<Rightarrow> s)"
    by (simp add: segmentOf_def split: option.split)
  have row: "csvRow m c =
     [formatMacAddress (mac c),
      (case map_of m (numberToString (vlan c)) of None \<Rightarrow> [] | Some s \<Rightarrow> s),
      [], [], [], [], ''Allow'', [], ''No'', [], ''No'']"
    by (simp add: csvRow_def seg)
  have rows: "tl (csvRows cs m) = map (\<lambda>c. join '','' (csvRow m c)) cs"
    by (simp add: csvRows_def)
  have readBack: "splitChar (CHR '','') (join '','' (csvRow m c)) = csvRow m c"
    if "CHR '','' \<notin> set (formatMacAddress (mac c))" "CHR '','' \<notin> set (segmentOf m c)"
    using that by (rule fields_of_csvRow)
  show ?thesis
    using rows readBack row by metis
qed

theorem csvRow_fields_witness:
  "CHR '','' \<notin> set (formatMacAddress ''000a.f70e.af2f'')
   \<and> splitChar (CHR '','')
        (join '','' (csvRow [(''5'', ''Guest'')] \<lparr>vlan = 5, mac = ''000a.f70e.af2f'', port = ''Gi1/0/11''\<rparr>)) =
       [''00:0a:f7:0e:af:2f'', ''Guest'', [], [], [], [], ''Allow'', [], ''No'', [], ''No'']
   \<and> splitChar (CHR '','')
        (join '','' (csvRow [(''1'', ''Corp'')] \<lparr>vlan = 5, mac = ''000a.f70e.af2f'', port = ''Gi1/0/11''\<rparr>)) =
       [''00:0a:f7:0e:af:2f'', [], [], [], [], [], ''Allow'', [], ''No'', [], ''No'']"
proof -
  let ?c = "\<lparr>vlan = 5, mac = ''000a.f70e.af2f'', port = ''Gi1/0/11''\<rparr>"
  have f: "formatMacAddress ''000a.f70e.af2f'' = ''00:0a:f7:0e:af:2f''"
    by code_simp
  have k: "numberToString 5 = ''5''"
    by code_simp
  have s1: "segmentOf [(''5'', ''Guest'')] ?c = ''Guest''"
    and s2: "segmentOf [(''1'', ''Corp'')] ?c = []"
    by (simp_all add: segmentOf_def k)
  show ?thesis
    using csvRow_fields [of "[(''5'', ''Guest'')]" ?c "[]"] csvRow_fields [of "[(''1'', ''Corp'')]" ?c "[]"]
    by (simp add: f k s1 s2)
qed

section \<open>Properties of parseFileContent: the scan\<close>

lemma fold_processLine_clients:
  "clients (fold processLine ls st) =
     clients st @ concat (map (\<lambda>l. clients (processLine l emptyParsed)) ls)"
proof (induction ls arbitrary: st)
  case Nil
  then show ?case by simp
next
  case (Cons l ls)
  have "clients (fold processLine (l # ls) st) =
        clients (processLine l st) @ concat (map (\<lambda>l. clients (processLine l emptyParsed)) ls)"
    using Cons.IH [of "processLine l st"] by simp
  then show ?case
    by (simp add: processLine_clients [of l st])
qed

lemma processLine_skips:
  "trim l = [] \<or>
     (mappingMatch (trim l) = None \<and>
        (length (splitWhiteSpace (trim l)) < 4 \<or> parseInt10 (splitWhiteSpace (trim l) ! 0) = None))
   \<Longrightarrow> processLine l st = st"
  by (auto simp: processLine_def Let_def)

lemma processLine_no_record:
  "trim l = [] \<or> mappingMatch (trim l) \<noteq> None \<or> length (splitWhiteSpace (trim l)) < 4 \<or>
     parseInt10 (splitWhiteSpace (trim l) ! 0) = None
   \<Longrightarrow> clients (processLine l st) = clients st"
  by (auto simp: processLine_def Let_def split: option.splits)

lemma processLine_record:
  assumes "c \<in> set (clients (processLine l emptyParsed))"
  shows "trim l \<noteq> [] \<and> mappingMatch (trim l) = None \<and> 4 \<le> length (splitWhiteSpace (trim l)) \<and>
         parseInt10 (splitWhiteSpace (trim l) ! 0) = Some (vlan c) \<and>
         mac c = splitWhiteSpace (trim l) ! 1 \<and> port c = splitWhiteSpace (trim l) ! 3"
  using assms
  by (auto simp: processLine_def Let_def emptyParsed_def split: option.splits if_splits)

lemma processLine_at_most_one:
  "length (clients (processLine l emptyParsed)) \<le> 1"
  by (auto simp: processLine_def Let_def emptyParsed_def split: option.splits)

lemma parseInt10_negative:
  assumes "parseInt10 t = Some v" and "v < 0"
  shows "hd (dropWhile isWhiteSpace t) = CHR ''-''"
proof (cases "dropWhile isWhiteSpace t")
  case Nil
  with assms show ?thesis by (simp add: parseInt10_def)
next
  case (Cons a r)
  with assms show ?thesis
    by (auto simp: parseInt10_def Let_def split: if_splits)
qed

lemma piece_no_leading_space:
  assumes "t \<in> set (splitWhiteSpace s)"
  shows "dropWhile isWhiteSpace t = t"
proof (cases t)
  case Nil
  then show ?thesis by simp
next
  case (Cons a r)
  then have "\<not> isWhiteSpace a"
    using splitWhiteSpace_pieces_no_space [OF assms, of a] by simp
  with Cons show ?thesis by simp
qed

text \<open>
  C8. The records of an input are the records of its lines, in the order of the lines:
  each line contributes at most one record, and what earlier lines contribute comes
  before what later lines contribute, whatever the VLAN ids are. The rows of the CSV keep
  the order of the records: row \<open>i\<close> of the body is rendered from record \<open>i\<close>, in the
  array of rows and, when no field holds a line feed, in the lines of the text.
\<close>

theorem records_keep_line_order:
  "clients (parseFileContent content) =
     concat (map (\<lambda>l. clients (processLine l emptyParsed)) (splitChar (CHR 0x0A) (trim content)))
   \<and> length (clients (processLine l emptyParsed)) \<le> 1
   \<and> clients (fold processLine (earlier @ later) emptyParsed) =
       clients (fold processLine earlier emptyParsed) @ clients (fold processLine later emptyParsed)
   \<and> tl (csvRows cs m) = map (\<lambda>c. join '','' (csvRow m c)) cs
   \<and> (\<forall>i<length cs. csvRows cs m ! Suc i = join '','' (csvRow m (cs ! i)))
   \<and> ((\<forall>c\<in>set cs. \<forall>f\<in>set (csvRow m c). CHR 0x0A \<notin> set f) \<longrightarrow>
        (\<forall>i<length cs.
           splitChar (CHR 0x0A) (generateCsv cs m) ! Suc i = join '','' (csvRow m (cs ! i))))"
proof -
  have a: "clients (parseFileContent content) =
     concat (map (\<lambda>l. clients (processLine l emptyParsed)) (splitChar (CHR 0x0A) (trim content)))"
    by (simp add: parseFileContent_clients fold_processLine_clients emptyParsed_def)
  have b: "clients (fold processLine (earlier @ later) emptyParsed) =
       clients (fold processLine earlier emptyParsed) @ clients (fold processLine later emptyParsed)"
    by (simp add: fold_processLine_clients emptyParsed_def)
  have c: "tl (csvRows cs m) = map (\<lambda>c. join '','' (csvRow m c)) cs"
    by (simp add: csvRows_def)
  have d: "\<forall>i<length cs. csvRows cs m ! Suc i = join '','' (csvRow m (cs ! i))"
    by (simp add: csvRows_def)
  have e: "\<forall>i<length cs.
           splitChar (CHR 0x0A) (generateCsv cs m) ! Suc i = join '','' (csvRow m (cs ! i))"
    if "\<forall>c\<in>set cs. \<forall>f\<in>set (csvRow m c). CHR 0x0A \<notin> set f"
    using lines_generateCsv [OF that] d by simp
  show ?thesis
    using a b c d e processLine_at_most_one [of l] by blast
qed

theorem records_keep_line_order_witness:
  "clients (parseFileContent
      (''5 000a.f70e.af2f DYNAMIC Gi1/0/11'' @ [CHR 0x0A] @ ''1 001e.0b41.7afd DYNAMIC Gi1/0/15'')) =
     [\<lparr>vlan = 5, mac = ''000a.f70e.af2f'', port = ''Gi1/0/11''\<rparr>,
      \<lparr>vlan = 1, mac = ''001e.0b41.7afd'', port = ''Gi1/0/15''\<rparr>]
   \<and> splitChar (CHR 0x0A)
        (generateCsv [\<lparr>vlan = 5, mac = ''000a.f70e.af2f'', port = ''Gi1/0/11''\<rparr>,
                      \<lparr>vlan = 1, mac = ''001e.0b41.7afd'', port = ''Gi1/0/15''\<rparr>] []) ! 1 =
       ''00:0a:f7:0e:af:2f,,,,,,Allow,,No,,No''
   \<and> splitChar (CHR 0x0A)
        (generateCsv [\<lparr>vlan = 5, mac = ''000a.f70e.af2f'', port = ''Gi1/0/11''\<rparr>,
                      \<lparr>vlan = 1, mac = ''001e.0b41.7afd'', port = ''Gi1/0/15''\<rparr>] []) ! 2 =
       ''00:1e:0b:41:7a:fd,,,,,,Allow,,No,,No''"
proof -
  let ?a = "\<lparr>vlan = 5, mac = ''000a.f70e.af2f'', port = ''Gi1/0/11''\<rparr>"
  let ?b = "\<lparr>vlan = 1, mac = ''001e.0b41.7afd'', port = ''Gi1/0/15''\<rparr>"
  let ?text = "''5 000a.f70e.af2f DYNAMIC Gi1/0/11'' @ [CHR 0x0A] @ ''1 001e.0b41.7afd DYNAMIC Gi1/0/15''"
  have lines: "splitChar (CHR 0x0A) (trim ?text) =
      [''5 000a.f70e.af2f DYNAMIC Gi1/0/11'', ''1 001e.0b41.7afd DYNAMIC Gi1/0/15'']"
    by code_simp
  have one: "clients (processLine ''5 000a.f70e.af2f DYNAMIC Gi1/0/11'' emptyParsed) = [?a]"
    and two: "clients (processLine ''1 001e.0b41.7afd DYNAMIC Gi1/0/15'' emptyParsed) = [?b]"
    by code_simp+
  have rowa: "csvRow [] ?a = [''00:0a:f7:0e:af:2f'', [], [], [], [], [], ''Allow'', [], ''No'', [], ''No'']"
    and rowb: "csvRow [] ?b = [''00:1e:0b:41:7a:fd'', [], [], [], [], [], ''Allow'', [], ''No'', [], ''No'']"
    by code_simp+
  have clean: "\<forall>c\<in>set [?a, ?b]. \<forall>f\<in>set (csvRow [] c). CHR 0x0A \<notin> set f"
    by (simp add: rowa rowb)
  note t = records_keep_line_order [where content = ?text and cs = "[?a, ?b]" and m = "[]"]
  from t have recs: "clients (parseFileContent ?text) =
      concat (map (\<lambda>l. clients (processLine l emptyParsed)) (splitChar (CHR 0x0A) (trim ?text)))"
    by blast
  from t clean have rows: "\<forall>i<length [?a, ?b].
      splitChar (CHR 0x0A) (generateCsv [?a, ?b] []) ! Suc i = join '','' (csvRow [] ([?a, ?b] ! i))"
    by blast
  have r1: "splitChar (CHR 0x0A) (generateCsv [?a, ?b] []) ! 1 = join '','' (csvRow [] ?a)"
    using rows [rule_format, of 0] by simp
  have r2: "splitChar (CHR 0x0A) (generateCsv [?a, ?b] []) ! 2 = join '','' (csvRow [] ?b)"
    using rows [rule_format, of 1] by (simp add: numeral_2_eq_2)
  show ?thesis
    unfolding r1 r2 recs lines by (simp add: one two rowa rowb)
qed

text \<open>
  C7, as the source has it. Every record of an extraction comes from a line of the input
  with at least four pieces, and its \<open>vlan\<close> is the integer \<open>parseInt\<close> reads from the
  first piece (never \<open>NaN\<close>). \<open>parseInt\<close> accepts a sign, so the integer is negative
  when that piece starts with \<open>-\<close>, and only then.
\<close>

theorem record_vlan_parsed:
  "\<forall>c\<in>set (clients (parseFileContent content)).
     \<exists>l\<in>set (splitChar (CHR 0x0A) (trim content)).
       (let parts = splitWhiteSpace (trim l)
        in 4 \<le> length parts \<and> parseInt10 (parts ! 0) = Some (vlan c)
           \<and> (vlan c < 0 \<longrightarrow> hd (parts ! 0) = CHR ''-''))"
proof
  fix c
  assume "c \<in> set (clients (parseFileContent content))"
  then obtain l where l: "l \<in> set (splitChar (CHR 0x0A) (trim content))"
    and c: "c \<in> set (clients (processLine l emptyParsed))"
    by (auto simp: parseFileContent_clients fold_processLine_clients emptyParsed_def)
  let ?parts = "splitWhiteSpace (trim l)"
  from processLine_record [OF c]
  have len: "4 \<le> length ?parts" and p: "parseInt10 (?parts ! 0) = Some (vlan c)"
    by simp_all
  from len have "0 < length ?parts" by linarith
  then have "?parts ! 0 \<in> set ?parts" by (rule nth_mem)
  then have "dropWhile isWhiteSpace (?parts ! 0) = ?parts ! 0"
    by (rule piece_no_leading_space)
  then have "vlan c < 0 \<longrightarrow> hd (?parts ! 0) = CHR ''-''"
    using parseInt10_negative [OF p] by simp
  with len p l show "\<exists>l\<in>set (splitChar (CHR 0x0A) (trim content)).
       (let parts = splitWhiteSpace (trim l)
        in 4 \<le> length parts \<and> parseInt10 (parts ! 0) = Some (vlan c)
           \<and> (vlan c < 0 \<longrightarrow> hd (parts ! 0) = CHR ''-''))"
    by (auto simp: Let_def)
qed

theorem record_vlan_parsed_witness:
  "\<lparr>vlan = - 5, mac = ''001e.0b41.7afd'', port = ''Gi1/0/15''\<rparr>
     \<in> set (clients (parseFileContent ''-5 001e.0b41.7afd DYNAMIC Gi1/0/15''))
   \<and> (\<exists>l\<in>set (splitChar (CHR 0x0A) (trim ''-5 001e.0b41.7afd DYNAMIC Gi1/0/15'')).
         4 \<le> length (splitWhiteSpace (trim l))
         \<and> parseInt10 (splitWhiteSpace (trim l) ! 0) = Some (- 5)
         \<and> hd (splitWhiteSpace (trim l) ! 0) = CHR ''-'')"
proof -
  let ?c = "\<lparr>vlan = - 5, mac = ''001e.0b41.7afd'', port = ''Gi1/0/15''\<rparr>"
  have m: "?c \<in> set (clients (parseFileContent ''-5 001e.0b41.7afd DYNAMIC Gi1/0/15''))"
    by code_simp
  from record_vlan_parsed [of "''-5 001e.0b41.7afd DYNAMIC Gi1/0/15''", rule_format, OF m]
  show ?thesis
    using m by (auto simp: Let_def)
qed

text \<open>
  C7 as stated says that no record carries a negative VLAN id. The line
  \<open>-5 001e.0b41.7afd DYNAMIC Gi1/0/15\<close> is not a mapping declaration, has four pieces, and
  \<open>parseInt("-5", 10)\<close> is \<open>-5\<close>, which is not \<open>NaN\<close>: the record's \<open>vlan\<close> is \<open>-5\<close>.
\<close>

theorem record_vlan_negative_counterexample:
  "clients (parseFileContent ''-5 001e.0b41.7afd DYNAMIC Gi1/0/15'') =
     [\<lparr>vlan = - 5, mac = ''001e.0b41.7afd'', port = ''Gi1/0/15''\<rparr>]
   \<and> vlan (hd (clients (parseFileContent ''-5 001e.0b41.7afd DYNAMIC Gi1/0/15''))) < 0"
  by code_simp

section \<open>Properties of the route handler\<close>

lemma POST_no_records:
  "fc \<noteq> [] \<Longrightarrow> atob fc = Some content \<Longrightarrow> clients (parseFileContent content) = [] \<Longrightarrow>
     POST atob btoa (Some \<lparr>fileContent = Some fc, vlanMappings = vm\<rparr>) =
       Error ''No valid MAC address entries found in the file'' 400"
  by (simp add: POST_def)

lemma fold_processLine_skip:
  "processLine l = id \<Longrightarrow>
     fold processLine (before @ l # after) st = fold processLine (before @ after) st"
  by simp

text \<open>
  C6, as the source has it. When every line of the input is blank, noise (fewer than four
  pieces, or a first piece \<open>parseInt\<close> cannot read) or a mapping declaration, the
  extraction has no records. A request whose \<open>fileContent\<close> is not empty and decodes to
  that input is answered with status 400 and the message
  \<open>No valid MAC address entries found in the file\<close>, not with a failure of the handler; a
  request whose \<open>fileContent\<close> is empty is answered \<open>No file content provided\<close> before
  anything is decoded. A blank or noise line leaves the state of the scan as it was; the
  scan goes on, and its result is the one the input has without that line, records and
  detected mappings alike.
\<close>

theorem noise_lines_skipped:
  "((\<forall>l\<in>set (splitChar (CHR 0x0A) (trim content)).
       trim l = [] \<or> mappingMatch (trim l) \<noteq> None \<or> length (splitWhiteSpace (trim l)) < 4 \<or>
       parseInt10 (splitWhiteSpace (trim l) ! 0) = None)
    \<longrightarrow> clients (parseFileContent content) = []
        \<and> (fc \<noteq> [] \<and> atob fc = Some content \<longrightarrow>
             POST atob btoa (Some \<lparr>fileContent = Some fc, vlanMappings = vm\<rparr>) =
               Error ''No valid MAC address entries found in the file'' 400))
   \<and> (trim l = [] \<or>
        (mappingMatch (trim l) = None \<and>
           (length (splitWhiteSpace (trim l)) < 4 \<or> parseInt10 (splitWhiteSpace (trim l) ! 0) = None))
      \<longrightarrow> processLine l st = st
          \<and> fold processLine (before @ l # after) st = fold processLine (before @ after) st
          \<and> (splitChar (CHR 0x0A) (trim whole) = before @ l # after \<longrightarrow>
               clients (parseFileContent whole) =
                 clients (fold processLine (before @ after) emptyParsed)
               \<and> detectedMappings (parseFileContent whole) =
                   detectedMappings (fold processLine (before @ after) emptyParsed)))
   \<and> POST atob btoa (Some \<lparr>fileContent = Some [], vlanMappings = vm\<rparr>) =
       Error ''No file content provided'' 400"
proof -
  have empty: "POST atob btoa (Some \<lparr>fileContent = Some [], vlanMappings = vm\<rparr>) =
       Error ''No file content provided'' 400"
    by (simp add: POST_def)
  have none: "clients (parseFileContent content) = []"
    if "\<forall>l\<in>set (splitChar (CHR 0x0A) (trim content)).
       trim l = [] \<or> mappingMatch (trim l) \<noteq> None \<or> length (splitWhiteSpace (trim l)) < 4 \<or>
       parseInt10 (splitWhiteSpace (trim l) ! 0) = None"
  proof -
    have "clients (processLine l emptyParsed) = []"
      if "l \<in> set (splitChar (CHR 0x0A) (trim content))" for l
      using processLine_no_record [of l emptyParsed] that \<open>\<forall>l\<in>set _. _\<close>
      by (simp add: emptyParsed_def)
    then show ?thesis
      by (simp add: parseFileContent_clients fold_processLine_clients emptyParsed_def)
  qed
  have skip: "processLine l st = st
          \<and> fold processLine (before @ l # after) st = fold processLine (before @ after) st
          \<and> (splitChar (CHR 0x0A) (trim whole) = before @ l # after \<longrightarrow>
               clients (parseFileContent whole) =
                 clients (fold processLine (before @ after) emptyParsed)
               \<and> detectedMappings (parseFileContent whole) =
                   detectedMappings (fold processLine (before @ after) emptyParsed))"
    if "trim l = [] \<or>
        (mappingMatch (trim l) = None \<and>
           (length (splitWhiteSpace (trim l)) < 4 \<or> parseInt10 (splitWhiteSpace (trim l) ! 0) = None))"
  proof -
    have s: "processLine l s = s" for s
      using that by (rule processLine_skips)
    then have f: "fold processLine (before @ l # after) s = fold processLine (before @ after) s" for s
      by simp
    show ?thesis
      using s f by (simp add: parseFileContent_clients parseFileContent_detected)
  qed
  show ?thesis
    using none skip POST_no_records [of fc atob content btoa vm] empty by blast
qed

theorem noise_lines_skipped_witness:
  "clients (parseFileContent (''Vlan Mac Address Type Ports'' @ [CHR 0x0A] @ ''---- ----'' @ [CHR 0x0A, CHR 0x0A] @ ''Total: 4'')) = []
   \<and> POST Some Some
        (Some \<lparr>fileContent = Some (''Vlan Mac Address Type Ports'' @ [CHR 0x0A] @ ''---- ----'' @ [CHR 0x0A, CHR 0x0A] @ ''Total: 4''),
               vlanMappings = Some []\<rparr>) =
       Error ''No valid MAC address entries found in the file'' 400
   \<and> processLine ''---- ----'' emptyParsed = emptyParsed
   \<and> clients (parseFileContent (''5 = Guest'' @ [CHR 0x0A] @ ''---- ----'' @ [CHR 0x0A] @ ''5 000a.f70e.af2f DYNAMIC Gi1/0/11'')) =
       clients (fold processLine [''5 = Guest'', ''5 000a.f70e.af2f DYNAMIC Gi1/0/11''] emptyParsed)
   \<and> detectedMappings (parseFileContent (''5 = Guest'' @ [CHR 0x0A] @ ''---- ----'' @ [CHR 0x0A] @ ''5 000a.f70e.af2f DYNAMIC Gi1/0/11'')) =
       detectedMappings (fold processLine [''5 = Guest'', ''5 000a.f70e.af2f DYNAMIC Gi1/0/11''] emptyParsed)"
proof -
  let ?noise = "''Vlan Mac Address Type Ports'' @ [CHR 0x0A] @ ''---- ----'' @ [CHR 0x0A, CHR 0x0A] @ ''Total: 4''"
  let ?text = "''5 = Guest'' @ [CHR 0x0A] @ ''---- ----'' @ [CHR 0x0A] @ ''5 000a.f70e.af2f DYNAMIC Gi1/0/11''"
  have lines: "splitChar (CHR 0x0A) (trim ?noise) = [''Vlan Mac Address Type Ports'', ''---- ----'', [], ''Total: 4'']"
    by code_simp
  have l1: "parseInt10 (splitWhiteSpace (trim ''Vlan Mac Address Type Ports'') ! 0) = None"
    and l2: "length (splitWhiteSpace (trim ''---- ----'')) < 4"
    and l3: "trim [] = []"
    and l4: "length (splitWhiteSpace (trim ''Total: 4'')) < 4"
    and l5: "mappingMatch (trim ''---- ----'') = None"
    by code_simp+
  have all: "\<forall>l\<in>set (splitChar (CHR 0x0A) (trim ?noise)).
       trim l = [] \<or> mappingMatch (trim l) \<noteq> None \<or> length (splitWhiteSpace (trim l)) < 4 \<or>
       parseInt10 (splitWhiteSpace (trim l) ! 0) = None"
    unfolding lines using l1 l2 l3 l4 by simp
  have tl: "splitChar (CHR 0x0A) (trim ?text) =
      [''5 = Guest''] @ ''---- ----'' # [''5 000a.f70e.af2f DYNAMIC Gi1/0/11'']"
    by code_simp
  have noisy: "trim ''---- ----'' = [] \<or>
        (mappingMatch (trim ''---- ----'') = None \<and>
           (length (splitWhiteSpace (trim ''---- ----'')) < 4 \<or>
            parseInt10 (splitWhiteSpace (trim ''---- ----'') ! 0) = None))"
    using l2 l5 by simp
  note t = noise_lines_skipped
    [where content = ?noise and fc = ?noise and atob = Some and btoa = Some and vm = "Some []"
       and l = "''---- ----''" and st = emptyParsed and before = "[''5 = Guest'']"
       and after = "[''5 000a.f70e.af2f DYNAMIC Gi1/0/11'']" and whole = ?text]
  from t all have a: "clients (parseFileContent ?noise) = []"
    and b: "POST Some Some (Some \<lparr>fileContent = Some ?noise, vlanMappings = Some []\<rparr>) =
       Error ''No valid MAC address entries found in the file'' 400"
    by auto
  from t noisy tl have c: "processLine ''---- ----'' emptyParsed = emptyParsed"
    and d: "clients (parseFileContent ?text) =
       clients (fold processLine ([''5 = Guest''] @ [''5 000a.f70e.af2f DYNAMIC Gi1/0/11'']) emptyParsed)"
    and e: "detectedMappings (parseFileContent ?text) =
       detectedMappings (fold processLine ([''5 = Guest''] @ [''5 000a.f70e.af2f DYNAMIC Gi1/0/11'']) emptyParsed)"
    by blast+
  show ?thesis
    using a b c d e by simp
qed

text \<open>
  C6 as stated promises the message \<open>No valid MAC address entries found in the file\<close>
  for every input of blank and noise lines. The empty text is such an input: it is one
  blank line and yields no records. Its encoding is the empty string, which the handler
  refuses at its first test, \<open>!fileContent\<close>, with \<open>No file content provided\<close>; nothing
  is decoded or parsed.
\<close>

theorem noise_lines_empty_text_counterexample:
  "splitChar (CHR 0x0A) (trim []) = [[]]
   \<and> trim [] = []
   \<and> clients (parseFileContent []) = []
   \<and> POST Some Some (Some \<lparr>fileContent = Some [], vlanMappings = Some []\<rparr>) =
       Error ''No file content provided'' 400
   \<and> POST Some Some (Some \<lparr>fileContent = Some [], vlanMappings = Some []\<rparr>) \<noteq>
       Error ''No valid MAC address entries found in the file'' 400"
  by code_simp



end
